theory Spec2Isabelle
  imports Complex_Main "HOL-Library.Word"
begin

section \<open>Data model of the compartment report converter\<close>

text \<open>
  The converter is \<^verbatim>\<open>main\<close> of \<^verbatim>\<open>apps/compartmentConverter.cpp\<close>, built with
  \<^verbatim>\<open>LUNCHBOX_USE_MPI\<close> (the only configuration in which line 269 compiles, since
  \<^verbatim>\<open>frame\<close> is declared inside the conditional block).  The containers are those of
  \<^verbatim>\<open>brion/types.h\<close>: \<^verbatim>\<open>GIDSet\<close> is an ordered set of 32-bit identifiers, iterated in
  ascending order and held here as the list of that iteration; \<^verbatim>\<open>SectionOffsets\<close> is a
  vector of vectors of 64-bit offsets and \<^verbatim>\<open>CompartmentCounts\<close> a vector of vectors of
  16-bit counts.  \<^verbatim>\<open>size_t\<close> is 64 bits wide and \<^verbatim>\<open>int\<close> 32 bits.
\<close>

type_synonym u16 = "16 word"
type_synonym u32 = "32 word"
type_synonym u64 = "64 word"

text \<open>\<^verbatim>\<open>std::numeric_limits< uint64_t >::max()\<close>, the offset of a section without
  compartments.\<close>

definition sentinel :: u64 where
  "sentinel = - 1"

text \<open>The calls the converter issues on the output report \<^verbatim>\<open>to\<close>, in program order.\<close>

datatype ('v, 't) writer_call =
    WriteHeader 't 't 't
  | AddGID u32
  | WriteCompartments u32 "u16 list"
  | WriteFrame u32 "'v list" 't
  | Flush

section \<open>Single-precision arithmetic\<close>

text \<open>
  The converter computes its time range, its frame count and its partition bounds in
  \<^verbatim>\<open>float\<close>.  The model takes \<^verbatim>\<open>float\<close> to be IEEE 754 binary32 with the default rounding
  (to nearest, ties to even) and every operation rounded once.  A finite \<^verbatim>\<open>float\<close> is
  represented by the rational number it denotes; an operation whose result is not a
  finite number (overflow, division by zero) yields \<open>None\<close>.  Values of type
  \<^verbatim>\<open>size_t\<close> (64 bits) and \<^verbatim>\<open>int\<close> (32 bits) are integers here, with the limits of the
  types written out where a conversion can leave them.

  \<open>binade a\<close> is the exponent \<open>e\<close> of the binade of \<open>a\<close>, so that \<open>2^e \<le> a < 2^(e+1)\<close>,
  limited to the exponent range of binary32; values below \<open>2^-126\<close> are subnormal and
  share the exponent \<open>-126\<close>.  A float of binade \<open>e\<close> is a multiple of \<open>2^(e-23)\<close>.
\<close>

fun binade_up :: "nat \<Rightarrow> rat \<Rightarrow> int \<Rightarrow> int" where
  "binade_up 0 a e = e"
| "binade_up (Suc n) a e = (if 2 \<le> a then binade_up n (a / 2) (e + 1) else e)"

fun binade_down :: "nat \<Rightarrow> rat \<Rightarrow> int \<Rightarrow> int" where
  "binade_down 0 a e = e"
| "binade_down (Suc n) a e = (if a < 1 then binade_down n (a * 2) (e - 1) else e)"

definition binade :: "rat \<Rightarrow> int" where
  "binade a = (if 1 \<le> a then binade_up 127 a 0 else binade_down 126 a 0)"

definition pow2 :: "int \<Rightarrow> rat" where
  "pow2 e = (if 0 \<le> e then 2 ^ nat e else 1 / 2 ^ nat (- e))"

definition round_half_even :: "rat \<Rightarrow> int" where
  "round_half_even y =
     (let f = \<lfloor>y\<rfloor>; d = y - of_int f
      in if d < 1 / 2 then f else if 1 / 2 < d then f + 1 else if even f then f else f + 1)"

text \<open>\<^verbatim>\<open>FLT_MAX\<close>, the largest finite value.\<close>

definition max_float :: rat where
  "max_float = (2 ^ 24 - 1) * 2 ^ 104"

text \<open>Rounding of an exact result to binary32 (zero is a float and stays as it is).
  \<open>None\<close> is an overflow, where the compiled code has an infinity; the time range below
  says what the code does with it.\<close>

definition fl32 :: "rat \<Rightarrow> rat option" where
  "fl32 x =
     (if x = 0 then Some 0
      else (let q = pow2 (binade \<bar>x\<bar> - 23);
                r = of_int (round_half_even (x / q)) * q
            in if \<bar>r\<bar> \<le> max_float then Some r else None))"

definition fadd :: "rat \<Rightarrow> rat \<Rightarrow> rat option" where
  "fadd a b = fl32 (a + b)"

definition fsub :: "rat \<Rightarrow> rat \<Rightarrow> rat option" where
  "fsub a b = fl32 (a - b)"

definition fmul :: "rat \<Rightarrow> rat \<Rightarrow> rat option" where
  "fmul a b = fl32 (a * b)"

definition fdiv :: "rat \<Rightarrow> rat \<Rightarrow> rat option" where
  "fdiv a b = (if b = 0 then None else fl32 (a / b))"

text \<open>Conversions.  An integer converts to the nearest \<^verbatim>\<open>float\<close>.  A \<^verbatim>\<open>float\<close> converts to
  \<^verbatim>\<open>size_t\<close> by discarding the fraction; the conversion is undefined (\<open>None\<close>) when the
  result does not fit.\<close>

definition int_to_float :: "int \<Rightarrow> rat option" where
  "int_to_float i = fl32 (of_int i)"

definition size_to_float :: "int \<Rightarrow> rat option" where
  "size_to_float n = fl32 (of_int n)"

definition float_to_size :: "rat \<Rightarrow> int option" where
  "float_to_size x =
     (let n = (if 0 \<le> x then \<lfloor>x\<rfloor> else - \<lfloor>- x\<rfloor>)
      in if 0 \<le> n \<and> n < 2 ^ 64 then Some n else None)"

section \<open>Time range and frame count (lines 124 to 125, 156 to 160 and 191)\<close>

text \<open>\<^verbatim>\<open>maxFrames\<close> is the value of the option when it is given once, and
  \<^verbatim>\<open>std::numeric_limits< size_t >::max()\<close> otherwise.\<close>

definition size_max :: int where
  "size_max = 2 ^ 64 - 1"

definition maxFrames_of :: "int option \<Rightarrow> int" where
  "maxFrames_of opt = (case opt of Some m \<Rightarrow> m | None \<Rightarrow> size_max)"

text \<open>
  \<^verbatim>\<open>maxEnd = start + maxFrames * step; end = std::min( end, maxEnd )\<close>.  Where the
  product or the sum overflows, the compiled code has an infinity: with \<open>+\<infinity>\<close> the
  minimum is \<^verbatim>\<open>end\<close> itself (this is the case of a large step without the option), with
  \<open>-\<infinity>\<close> the end is no finite number (\<open>None\<close>).
\<close>

definition clamped_end :: "rat \<Rightarrow> rat \<Rightarrow> rat \<Rightarrow> int \<Rightarrow> rat option" where
  "clamped_end start endTime step maxFrames =
     Option.bind (size_to_float maxFrames) (\<lambda>m.
       case fmul m step of
         None \<Rightarrow> (if 0 < step then Some endTime else None)
       | Some product \<Rightarrow>
           (case fadd start product of
              None \<Rightarrow> (if 0 < start + product then Some endTime else None)
            | Some maxEnd \<Rightarrow> Some (if maxEnd < endTime then maxEnd else endTime)))"

text \<open>\<^verbatim>\<open>const size_t nFrames = (end - start) / step\<close>.\<close>

definition frame_count :: "rat \<Rightarrow> rat \<Rightarrow> rat \<Rightarrow> int option" where
  "frame_count start endTime step =
     Option.bind (fsub endTime start) (\<lambda>d.
     Option.bind (fdiv d step) float_to_size)"

definition converted_frames :: "rat \<Rightarrow> rat \<Rightarrow> rat \<Rightarrow> int option \<Rightarrow> int option" where
  "converted_frames start endTime step opt =
     Option.bind (clamped_end start endTime step (maxFrames_of opt)) (\<lambda>e.
     frame_count start e step)"

section \<open>Layout phase (lines 174 to 188)\<close>

text \<open>
  \<^verbatim>\<open>range = float( gids.size( )) / float( nRanks )\<close>, then
  \<^verbatim>\<open>startGID = rank * range\<close> and \<^verbatim>\<open>endGID = ( rank + 1 ) * range\<close>, each product
  converted to \<^verbatim>\<open>size_t\<close>.  \<open>gid_bound G nRanks r\<close> is the conversion of \<open>r * range\<close>.
\<close>

definition gid_bound :: "int \<Rightarrow> int \<Rightarrow> int \<Rightarrow> int option" where
  "gid_bound G nRanks r =
     Option.bind (size_to_float G) (\<lambda>g.
     Option.bind (int_to_float nRanks) (\<lambda>n.
     Option.bind (fdiv g n) (\<lambda>rangef.
     Option.bind (int_to_float r) (\<lambda>rf.
     Option.bind (fmul rf rangef) float_to_size))))"

definition startGID :: "int \<Rightarrow> int \<Rightarrow> int \<Rightarrow> int option" where
  "startGID G nRanks rank = gid_bound G nRanks rank"

definition endGID :: "int \<Rightarrow> int \<Rightarrow> int \<Rightarrow> int option" where
  "endGID G nRanks rank = gid_bound G nRanks (rank + 1)"

text \<open>The loop over the GIDs: \<^verbatim>\<open>addGID\<close> outside the range of the rank,
  \<^verbatim>\<open>writeCompartments( gid, counts[ index ] )\<close> inside it.\<close>

fun layout_loop ::
  "int \<Rightarrow> int \<Rightarrow> u32 list \<Rightarrow> u16 list list \<Rightarrow> nat \<Rightarrow> ('v, 't) writer_call list option" where
  "layout_loop s e [] counts index = Some []"
| "layout_loop s e (gid # gids) counts index =
     (if int index < s \<or> int index \<ge> e
      then map_option (\<lambda>calls. AddGID gid # calls) (layout_loop s e gids counts (Suc index))
      else if index < length counts
      then map_option (\<lambda>calls. WriteCompartments gid (counts ! index) # calls)
             (layout_loop s e gids counts (Suc index))
      else None)"

definition layout_phase ::
  "int \<Rightarrow> int \<Rightarrow> u32 list \<Rightarrow> u16 list list \<Rightarrow> ('v, 't) writer_call list option" where
  "layout_phase rank nRanks gids counts =
     Option.bind (startGID (int (length gids)) nRanks rank) (\<lambda>s.
     Option.bind (endGID (int (length gids)) nRanks rank) (\<lambda>e.
     layout_loop s e gids counts 0))"

text \<open>The index of a neuron is owned by a rank when the layout phase of that rank calls
  \<^verbatim>\<open>writeCompartments\<close> for it.\<close>

definition owns :: "int \<Rightarrow> int \<Rightarrow> int \<Rightarrow> nat \<Rightarrow> bool" where
  "owns G nRanks rank index =
     (case (startGID G nRanks rank, endGID G nRanks rank) of
        (Some s, Some e) \<Rightarrow> \<not> (int index < s \<or> int index \<ge> e)
      | _ \<Rightarrow> False)"


section \<open>Slice construction (lines 279 to 290)\<close>

text \<open>
  The innermost loop \<^verbatim>\<open>for( size_t k = 0; k < counts[index][j]; ++k )\<close> pushes
  \<^verbatim>\<open>voltages[ offsets[index][j]+k ]\<close>.  The index is computed in 64-bit unsigned
  arithmetic.  Reading a vector outside its bounds is undefined in C++; the model
  returns \<open>None\<close> there.
\<close>

definition voltage_index :: "u64 \<Rightarrow> nat \<Rightarrow> nat" where
  "voltage_index off k = unat (off + word_of_nat k)"

function section_loop :: "'v list \<Rightarrow> u64 \<Rightarrow> u16 \<Rightarrow> nat \<Rightarrow> 'v list \<Rightarrow> 'v list option" where
  "section_loop voltages off cnt k cellVoltages =
     (if k < unat cnt
      then (if voltage_index off k < length voltages
            then section_loop voltages off cnt (Suc k)
                   (cellVoltages @ [voltages ! voltage_index off k])
            else None)
      else Some cellVoltages)"
  by pat_completeness auto
termination
  by (relation "measure (\<lambda>(voltages, off, cnt, k, cellVoltages). unat cnt - k)") auto

declare section_loop.simps [simp del]

text \<open>
  The loop \<^verbatim>\<open>for( size_t j = 0; j < offsets[index].size(); ++j )\<close> over the sections of
  one neuron.  Its bound is the size of the offsets vector; \<^verbatim>\<open>counts[index][j]\<close> is read
  for each such \<open>j\<close>, which is out of range when the counts vector is shorter.
\<close>

function neuron_loop :: "'v list \<Rightarrow> u64 list \<Rightarrow> u16 list \<Rightarrow> nat \<Rightarrow> 'v list \<Rightarrow> 'v list option" where
  "neuron_loop voltages offs cnts j cellVoltages =
     (if j < length offs
      then (if j < length cnts
            then (case section_loop voltages (offs ! j) (cnts ! j) 0 cellVoltages of
                    None \<Rightarrow> None
                  | Some cell' \<Rightarrow> neuron_loop voltages offs cnts (Suc j) cell')
            else None)
      else Some cellVoltages)"
  by pat_completeness auto
termination
  by (relation "measure (\<lambda>(voltages, offs, cnts, j, cellVoltages). length offs - j)") auto

declare neuron_loop.simps [simp del]

text \<open>
  The loop \<^verbatim>\<open>BOOST_FOREACH( const uint32_t gid, gids )\<close> of one processed frame: for
  every neuron, in GID order, the slice is built from an empty vector and handed to
  \<^verbatim>\<open>to.writeFrame( gid, cellVoltages, t )\<close>.  There is no test of ownership in this loop.
  (\<^verbatim>\<open>reserve\<close> only sizes the buffer and is left out.)
\<close>

fun frame_loop ::
  "u32 list \<Rightarrow> u64 list list \<Rightarrow> u16 list list \<Rightarrow> 'v list \<Rightarrow> 't \<Rightarrow> nat
    \<Rightarrow> ('v, 't) writer_call list option" where
  "frame_loop [] offsets counts voltages t index = Some []"
| "frame_loop (gid # gids) offsets counts voltages t index =
     (if index < length offsets \<and> index < length counts
      then (case neuron_loop voltages (offsets ! index) (counts ! index) 0 [] of
              None \<Rightarrow> None
            | Some cellVoltages \<Rightarrow>
                map_option (\<lambda>calls. WriteFrame gid cellVoltages t # calls)
                  (frame_loop gids offsets counts voltages t (Suc index)))
      else None)"

text \<open>The layout invariants of the report: a section with the sentinel offset has no
  compartments, and any other section lies inside the frame.\<close>

definition section_ok :: "u64 \<Rightarrow> u64 \<Rightarrow> u16 \<Rightarrow> bool" where
  "section_ok frameSize off cnt =
     (if off = sentinel then cnt = 0 else unat off + unat cnt \<le> unat frameSize)"

definition layout_ok :: "u64 \<Rightarrow> u64 list \<Rightarrow> u16 list \<Rightarrow> bool" where
  "layout_ok frameSize offs cnts = list_all2 (section_ok frameSize) offs cnts"

text \<open>The slice as the specification words it: the sub-ranges
  \<open>frame[off .. off + cnt)\<close> of the sections, concatenated in section order.\<close>

definition spec_slice :: "'v list \<Rightarrow> u64 list \<Rightarrow> u16 list \<Rightarrow> 'v list" where
  "spec_slice frame offs cnts =
     concat (map (\<lambda>(off, cnt). take (unat cnt) (drop (unat off) frame)) (zip offs cnts))"

text \<open>A report is well formed when every neuron has its offsets and counts vectors
  and each pair satisfies the layout invariants.\<close>

definition report_ok :: "u64 \<Rightarrow> u32 list \<Rightarrow> u64 list list \<Rightarrow> u16 list list \<Rightarrow> bool" where
  "report_ok frameSize gids offsets counts =
     (length offsets = length gids \<and> list_all2 (layout_ok frameSize) offsets counts)"

section \<open>The input report\<close>

text \<open>What the converter reads from \<^verbatim>\<open>brion::CompartmentReport in\<close>.  The element type
  of a frame is left open where only positions matter.\<close>

record 'v report =
  getStartTime :: rat
  getEndTime :: rat
  getTimestep :: rat
  getGIDs :: "u32 list"
  getCompartmentCounts :: "u16 list list"
  getOffsets :: "u64 list list"
  getFrameSize :: u64
  loadFrame :: "rat \<Rightarrow> 'v list option"

section \<open>Frame dispatch (lines 194 to 334)\<close>

definition EXIT_SUCCESS :: int where
  "EXIT_SUCCESS = 0"

definition EXIT_FAILURE :: int where
  "EXIT_FAILURE = 1"

text \<open>Conversion of an integer value to \<^verbatim>\<open>int\<close>: the low 32 bits, read as two's
  complement.  It is applied to \<^verbatim>\<open>nFrames>>9\<close> and to the loop counter \<open>i\<close>, and it is
  also what \<^verbatim>\<open>MPI_Isend( &i, 1, MPI_INT, ... )\<close> transmits of the 64-bit counter.\<close>

definition to_int32 :: "int \<Rightarrow> int" where
  "to_int32 x = (x + 2 ^ 31) mod 2 ^ 32 - 2 ^ 31"

text \<open>\<^verbatim>\<open>const int preQueue = std::max( 2, int( nFrames>>9 ) )\<close>.\<close>

definition preQueue :: "int \<Rightarrow> int" where
  "preQueue nFrames = max 2 (to_int32 (nFrames div 2 ^ 9))"

text \<open>\<^verbatim>\<open>const size_t startFrame = (nRanks-1) * preQueue\<close>: the product is formed in
  \<^verbatim>\<open>int\<close>, where overflow is undefined, and then converted to \<^verbatim>\<open>size_t\<close>.\<close>

definition startFrame :: "int \<Rightarrow> int \<Rightarrow> int option" where
  "startFrame nRanks nFrames =
     (let p = (nRanks - 1) * preQueue nFrames
      in if - (2 ^ 31) \<le> p \<and> p < 2 ^ 31 then Some (p mod 2 ^ 64) else None)"

text \<open>The test \<^verbatim>\<open>startFrame > nFrames\<close> that ends the run with \<^verbatim>\<open>EXIT_FAILURE\<close>.\<close>

definition too_many_workers :: "int \<Rightarrow> int \<Rightarrow> bool option" where
  "too_many_workers nRanks nFrames =
     map_option (\<lambda>s. s > nFrames) (startFrame nRanks nFrames)"

datatype mpi_tag = TAG_FRAME | TAG_FRAME_DONE

record mpi_status =
  MPI_SOURCE :: int

text \<open>What one rank does, in program order: calls on the output report, the frames it
  processes (\<^verbatim>\<open>++framesDone\<close>), and its message-passing calls.  \<open>Isend dest tag payload\<close>
  and \<open>Recv source tag payload\<close> carry the rank of the peer; \<open>WaitRequest k\<close> is
  \<^verbatim>\<open>MPI_Wait\<close> on \<^verbatim>\<open>requests[k]\<close>.\<close>

datatype ('v, 't) event =
    Call "('v, 't) writer_call"
  | Process int
  | Isend int mpi_tag int
  | Recv int mpi_tag int
  | WaitRequest int
  | WaitClient
  | Barrier

text \<open>How a run of the loop ends: it falls through to the code after the loop, or it
  waits forever in \<^verbatim>\<open>MPI_Recv\<close> for a message that never comes.\<close>

datatype halt = Completed | Blocked

text \<open>The pre-queue of rank 0 (lines 212 to 219): \<^verbatim>\<open>preQueue\<close> frames for each of the
  ranks 1 to \<open>nRanks - 1\<close>; frame \<open>(i-1) * preQueue + j\<close> goes to rank \<open>i\<close>, and the
  handle of the send is kept in \<^verbatim>\<open>requests[frame]\<close>.\<close>

definition prequeue_frames :: "int \<Rightarrow> int \<Rightarrow> (int \<times> int) list" where
  "prequeue_frames nRanks pq =
     concat (map (\<lambda>i. map (\<lambda>j. (i, (i - 1) * pq + j)) [0..pq - 1]) [1..nRanks - 1])"

text \<open>
  The loop \<^verbatim>\<open>for( size_t i = startFrame; i < nFrames; ++i )\<close> as rank 0 runs it.
  \<open>probe i\<close> is what \<^verbatim>\<open>MPI_Iprobe\<close> and the following \<^verbatim>\<open>MPI_Recv\<close> deliver in iteration
  \<open>i\<close>: nothing, or the payload and the sender of a \<^verbatim>\<open>TAG_FRAME_DONE\<close> message.
  \<^verbatim>\<open>MPI_Recv\<close> stores the sender in \<^verbatim>\<open>status\<close>; the same \<^verbatim>\<open>status\<close> is then handed to
  \<^verbatim>\<open>MPI_Wait( &requests[frame], &status )\<close>, and \<open>mpi_wait\<close> is what that call leaves in
  it.  After \<^verbatim>\<open>requests.erase( frame )\<close> the counter is sent to \<^verbatim>\<open>status.MPI_SOURCE\<close>.
  \<open>proc\<close> is the processing of one frame (lines 269 to 293); \<open>None\<close> is undefined
  behaviour inside it.
\<close>

function coordinator_loop ::
  "(int \<Rightarrow> (int \<times> int) option) \<Rightarrow> (mpi_status \<Rightarrow> mpi_status)
    \<Rightarrow> (int \<Rightarrow> ('v, 't) event list option) \<Rightarrow> int \<Rightarrow> int \<Rightarrow> int \<Rightarrow> int set
    \<Rightarrow> (('v, 't) event list \<times> int set) option" where
  "coordinator_loop probe mpi_wait proc nRanks nFrames i requests =
     (if i < nFrames
      then (case (if nRanks > 1 then probe i else None) of
              Some (frame, source) \<Rightarrow>
                (let status = \<lparr>MPI_SOURCE = source\<rparr>;
                     status = mpi_wait status
                 in map_option
                      (\<lambda>(evs, rq).
                         (Recv source TAG_FRAME_DONE frame # WaitRequest frame
                            # Isend (MPI_SOURCE status) TAG_FRAME (to_int32 i) # evs, rq))
                      (coordinator_loop probe mpi_wait proc nRanks nFrames (i + 1)
                         (insert (to_int32 i) (requests - {frame}))))
            | None \<Rightarrow>
                (if to_int32 i < 0 then Some ([], requests)
                 else (case proc (to_int32 i) of
                         None \<Rightarrow> None
                       | Some calls \<Rightarrow>
                           map_option (\<lambda>(evs, rq). (Process (to_int32 i) # calls @ evs, rq))
                             (coordinator_loop probe mpi_wait proc nRanks nFrames (i + 1)
                                requests))))
      else Some ([], requests))"
  by pat_completeness auto
termination
  by (relation "measure (\<lambda>(probe, mpi_wait, proc, nRanks, nFrames, i, requests).
        nat (nFrames - i))") auto

declare coordinator_loop.simps [simp del]

text \<open>
  The same loop as a rank other than 0 runs it.  \<open>inbox\<close> holds the payloads of the
  \<^verbatim>\<open>TAG_FRAME\<close> messages that rank 0 has sent or will send to this rank, in the order of
  sending; \<^verbatim>\<open>MPI_Recv\<close> takes the first.  A negative payload leaves the loop.
  \<open>first\<close> is the value of \<^verbatim>\<open>startFrame\<close>.
\<close>

function worker_loop ::
  "(int \<Rightarrow> ('v, 't) event list option) \<Rightarrow> int \<Rightarrow> int \<Rightarrow> int \<Rightarrow> int list
    \<Rightarrow> (('v, 't) event list \<times> halt) option" where
  "worker_loop proc first nFrames i inbox =
     (if i < nFrames
      then (let wait = (if i \<noteq> first then [WaitClient] else [])
            in case inbox of
                 [] \<Rightarrow> Some (wait, Blocked)
               | frame # rest \<Rightarrow>
                   (if frame < 0 then Some (wait @ [Recv 0 TAG_FRAME frame], Completed)
                    else (case proc frame of
                            None \<Rightarrow> None
                          | Some calls \<Rightarrow>
                              map_option
                                (\<lambda>(evs, h).
                                   (wait @ Recv 0 TAG_FRAME frame # Process frame # calls
                                      @ Isend 0 TAG_FRAME_DONE frame # evs, h))
                                (worker_loop proc first nFrames (i + 1) rest))))
      else Some ([], Completed))"
  by pat_completeness auto
termination
  by (relation "measure (\<lambda>(proc, first, nFrames, i, inbox). nat (nFrames - i))") auto

declare worker_loop.simps [simp del]

text \<open>The frames a rank processes.\<close>

fun framesDone :: "('v, 't) event list \<Rightarrow> int list" where
  "framesDone [] = []"
| "framesDone (Process f # evs) = f # framesDone evs"
| "framesDone (e # evs) = framesDone evs"


section \<open>One processed frame (lines 269 to 293)\<close>

text \<open>\<^verbatim>\<open>const float t = start + frame * step\<close>.\<close>

definition frame_time :: "rat \<Rightarrow> rat \<Rightarrow> int \<Rightarrow> rat option" where
  "frame_time start step frame =
     Option.bind (int_to_float frame) (\<lambda>f.
     Option.bind (fmul f step) (\<lambda>p. fadd start p))"

text \<open>The frame is loaded and dereferenced without a test (\<open>None\<close> when there is no
  frame at \<open>t\<close>, and also when \<open>t\<close> is no finite number, which the model does not
  follow further), and every neuron's slice is written.\<close>

definition process_frame :: "'v report \<Rightarrow> int \<Rightarrow> ('v, rat) event list option" where
  "process_frame inp frame =
     Option.bind (frame_time (getStartTime inp) (getTimestep inp) frame) (\<lambda>t.
       case loadFrame inp t of
         None \<Rightarrow> None
       | Some voltages \<Rightarrow>
           map_option (map Call)
             (frame_loop (getGIDs inp) (getOffsets inp) (getCompartmentCounts inp)
                voltages t 0))"

section \<open>The conversion run of one rank\<close>

text \<open>Lines 156 to 191: the clamped time range, the header, the layout phase and the
  number of frames.\<close>

definition prepare ::
  "'v report \<Rightarrow> int \<Rightarrow> int \<Rightarrow> int option \<Rightarrow> (('v, rat) writer_call list \<times> int) option" where
  "prepare inp rank nRanks opt =
     Option.bind
       (clamped_end (getStartTime inp) (getEndTime inp) (getTimestep inp) (maxFrames_of opt))
       (\<lambda>e.
     Option.bind (layout_phase rank nRanks (getGIDs inp) (getCompartmentCounts inp))
       (\<lambda>layout.
     Option.bind (frame_count (getStartTime inp) e (getTimestep inp))
       (\<lambda>nFrames.
     Some (WriteHeader (getStartTime inp) e (getTimestep inp) # layout, nFrames))))"

text \<open>How the run of a rank ends: \<^verbatim>\<open>main\<close> returns an exit code, or the rank waits
  forever.\<close>

datatype outcome = Exit int | Hang

text \<open>
  Lines 212 to 334, reached when the test of \<^verbatim>\<open>startFrame\<close> lets the run go on: the
  pre-queue, the loop, the stop frames \<open>-i\<close>, \<^verbatim>\<open>to.flush()\<close>, the waits on the retained
  handles and the barrier.  The waits and the barrier are recorded as events only.
\<close>

definition proceed ::
  "(int \<Rightarrow> (int \<times> int) option) \<Rightarrow> (mpi_status \<Rightarrow> mpi_status) \<Rightarrow> int list
    \<Rightarrow> (int \<Rightarrow> ('v, 't) event list option) \<Rightarrow> int \<Rightarrow> int \<Rightarrow> int \<Rightarrow> int
    \<Rightarrow> (('v, 't) event list \<times> outcome) option" where
  "proceed probe mpi_wait inbox proc rank nRanks nFrames s =
     (if rank = 0
      then (let pre = prequeue_frames nRanks (preQueue nFrames)
            in case coordinator_loop probe mpi_wait proc nRanks nFrames s (set (map snd pre)) of
                 None \<Rightarrow> None
               | Some (evs, rq) \<Rightarrow>
                   Some (map (\<lambda>(i, f). Isend i TAG_FRAME f) pre @ evs
                         @ map (\<lambda>i. Isend i TAG_FRAME (- i)) [1..nRanks - 1]
                         @ [Call Flush]
                         @ map WaitRequest
                             (sorted_list_of_set (rq \<union> set (map uminus [1..nRanks - 1])))
                         @ [Barrier],
                         Exit EXIT_SUCCESS))
      else (case worker_loop proc s nFrames s inbox of
              None \<Rightarrow> None
            | Some (evs, Blocked) \<Rightarrow> Some (evs, Hang)
            | Some (evs, Completed) \<Rightarrow>
                Some (evs @ [Call Flush, WaitClient, Barrier], Exit EXIT_SUCCESS)))"

text \<open>Lines 194 to 202 in front of it: the run ends with \<^verbatim>\<open>EXIT_FAILURE\<close> when
  \<^verbatim>\<open>startFrame > nFrames\<close>.\<close>

definition dispatch ::
  "(int \<Rightarrow> (int \<times> int) option) \<Rightarrow> (mpi_status \<Rightarrow> mpi_status) \<Rightarrow> int list
    \<Rightarrow> (int \<Rightarrow> ('v, 't) event list option) \<Rightarrow> int \<Rightarrow> int \<Rightarrow> int
    \<Rightarrow> (('v, 't) event list \<times> outcome) option" where
  "dispatch probe mpi_wait inbox proc rank nRanks nFrames =
     (case startFrame nRanks nFrames of
        None \<Rightarrow> None
      | Some s \<Rightarrow>
          if s > nFrames then Some ([], Exit EXIT_FAILURE)
          else proceed probe mpi_wait inbox proc rank nRanks nFrames s)"

text \<open>The run up to the summary line (the verification pass of \<^verbatim>\<open>--compare\<close> follows
  it and is modelled on its own).\<close>

definition convert ::
  "(int \<Rightarrow> (int \<times> int) option) \<Rightarrow> (mpi_status \<Rightarrow> mpi_status) \<Rightarrow> int list
    \<Rightarrow> 'v report \<Rightarrow> int \<Rightarrow> int \<Rightarrow> int option
    \<Rightarrow> (('v, rat) event list \<times> outcome) option" where
  "convert probe mpi_wait inbox inp rank nRanks opt =
     Option.bind (prepare inp rank nRanks opt) (\<lambda>(calls, nFrames).
       map_option (\<lambda>(evs, out). (map Call calls @ evs, out))
         (dispatch probe mpi_wait inbox (process_frame inp) rank nRanks nFrames))"

section \<open>Verification pass (lines 380 to 391)\<close>

text \<open>
  A voltage is a \<^verbatim>\<open>float\<close>, held here as its 32 bits.  \<^verbatim>\<open>a != b\<close> on two floats is true
  when either is a NaN (exponent bits all set, fraction not zero), and otherwise when
  the bit patterns differ, unless both are zeros (of either sign).
\<close>

definition is_nan :: "u32 \<Rightarrow> bool" where
  "is_nan w = (take_bit 31 w > 0x7F800000)"

definition float_ne :: "u32 \<Rightarrow> u32 \<Rightarrow> bool" where
  "float_ne a b =
     (is_nan a \<or> is_nan b \<or> (a \<noteq> b \<and> \<not> (take_bit 31 a = 0 \<and> take_bit 31 b = 0)))"

text \<open>The result of the checks: all passed so far, \<^verbatim>\<open>::exit( EXIT_FAILURE )\<close> of a
  \<^verbatim>\<open>REQUIRE\<close> macro, or behaviour that C++ leaves undefined (a read behind the end of a
  frame) or that leaves the finite numbers (the timestamp overflows).\<close>

datatype verdict = Passed | Exited int | Undefined

text \<open>\<^verbatim>\<open>for( size_t i = 0; i < in.getFrameSize(); ++i )
  REQUIRE_EQUAL( (*frame1)[i], (*frame2)[i] )\<close>.\<close>

function compare_loop :: "u32 list \<Rightarrow> u32 list \<Rightarrow> nat \<Rightarrow> nat \<Rightarrow> verdict" where
  "compare_loop frame1 frame2 frameSize i =
     (if i < frameSize
      then (if i < length frame1 \<and> i < length frame2
            then (if float_ne (frame1 ! i) (frame2 ! i) then Exited EXIT_FAILURE
                  else compare_loop frame1 frame2 frameSize (Suc i))
            else Undefined)
      else Passed)"
  by pat_completeness auto
termination
  by (relation "measure (\<lambda>(frame1, frame2, frameSize, i). frameSize - i)") auto

declare compare_loop.simps [simp del]

text \<open>The body of the loop over the timestamps: \<^verbatim>\<open>REQUIRE( frame1 )\<close>,
  \<^verbatim>\<open>REQUIRE( frame2 )\<close>, then the comparison.\<close>

definition check_frames :: "u32 list option \<Rightarrow> u32 list option \<Rightarrow> nat \<Rightarrow> verdict" where
  "check_frames frame1 frame2 frameSize =
     (case frame1 of
        None \<Rightarrow> Exited EXIT_FAILURE
      | Some f1 \<Rightarrow>
          (case frame2 of
             None \<Rightarrow> Exited EXIT_FAILURE
           | Some f2 \<Rightarrow> compare_loop f1 f2 frameSize 0))"

text \<open>
  \<^verbatim>\<open>for( float t = start; t < end; t += step )\<close>.  The loop need not end (a step of zero
  never advances \<open>t\<close>), so the model counts iterations: \<open>None\<close> means that the loop is
  still running after \<open>n\<close> of them.
\<close>

fun verify_loop ::
  "(rat \<Rightarrow> u32 list option) \<Rightarrow> (rat \<Rightarrow> u32 list option) \<Rightarrow> nat \<Rightarrow> rat \<Rightarrow> rat \<Rightarrow> nat \<Rightarrow> rat
    \<Rightarrow> verdict option" where
  "verify_loop in_load result_load frameSize endTime step 0 t = None"
| "verify_loop in_load result_load frameSize endTime step (Suc n) t =
     (if t < endTime
      then (case check_frames (in_load t) (result_load t) frameSize of
              Passed \<Rightarrow>
                (case fadd t step of
                   None \<Rightarrow> Some Undefined
                 | Some t' \<Rightarrow> verify_loop in_load result_load frameSize endTime step n t')
            | v \<Rightarrow> Some v)
      else Some Passed)"







section \<open>Properties of the slice construction\<close>

lemma voltage_index_no_wrap:
  "unat off + k < 2 ^ 64 \<Longrightarrow> voltage_index off k = unat off + k"
  by (simp add: voltage_index_def unat_word_ariths unat_of_nat take_bit_nat_eq_self)

lemma section_loop_eq:
  "unat off + unat cnt \<le> length voltages \<Longrightarrow> length voltages < 2 ^ 64 \<Longrightarrow> k \<le> unat cnt \<Longrightarrow>
   section_loop voltages off cnt k cell =
     Some (cell @ take (unat cnt - k) (drop (unat off + k) voltages))"
proof (induction voltages off cnt k cell rule: section_loop.induct)
  case (1 voltages off cnt k cell)
  show ?case
  proof (cases "k < unat cnt")
    case False
    with "1.prems" show ?thesis by (simp add: section_loop.simps)
  next
    case True
    have idx: "voltage_index off k = unat off + k"
      using True "1.prems" by (intro voltage_index_no_wrap) simp
    have inb: "unat off + k < length voltages" using True "1.prems" by simp
    have step: "take (unat cnt - k) (drop (unat off + k) voltages) =
       voltages ! (unat off + k) # take (unat cnt - Suc k) (drop (unat off + Suc k) voltages)"
      using True inb
      by (metis Cons_nth_drop_Suc Suc_diff_Suc add_Suc_right take_Suc_Cons)
    have "section_loop voltages off cnt k cell =
          section_loop voltages off cnt (Suc k) (cell @ [voltages ! (unat off + k)])"
      using True inb idx by (subst section_loop.simps) simp
    also have "\<dots> = Some ((cell @ [voltages ! (unat off + k)]) @
        take (unat cnt - Suc k) (drop (unat off + Suc k) voltages))"
      using "1.IH"[OF True] idx inb True "1.prems" by simp
    finally show ?thesis using step by simp
  qed
qed

lemma section_loop_ok:
  assumes "section_ok frameSize off cnt" and "length voltages = unat frameSize"
  shows "section_loop voltages off cnt 0 cell =
           Some (cell @ take (unat cnt) (drop (unat off) voltages))"
proof (cases "off = sentinel")
  case True
  with assms have "cnt = 0" by (simp add: section_ok_def)
  then show ?thesis by (simp add: section_loop.simps)
next
  case False
  with assms have le: "unat off + unat cnt \<le> length voltages" by (simp add: section_ok_def)
  have lt: "length voltages < 2 ^ 64" using assms(2) unsigned_less[of frameSize] by simp
  show ?thesis using section_loop_eq[OF le lt, of 0 cell] by simp
qed

lemma spec_slice_Cons:
  "spec_slice frame (off # offs) (cnt # cnts) =
     take (unat cnt) (drop (unat off) frame) @ spec_slice frame offs cnts"
  by (simp add: spec_slice_def)

lemma neuron_loop_eq:
  "layout_ok frameSize offs cnts \<Longrightarrow> length voltages = unat frameSize \<Longrightarrow> j \<le> length offs \<Longrightarrow>
   neuron_loop voltages offs cnts j cell =
     Some (cell @ spec_slice voltages (drop j offs) (drop j cnts))"
proof (induction voltages offs cnts j cell rule: neuron_loop.induct)
  case (1 voltages offs cnts j cell)
  have len: "length offs = length cnts"
    using "1.prems"(1) by (simp add: layout_ok_def list_all2_lengthD)
  show ?case
  proof (cases "j < length offs")
    case False
    with "1.prems" show ?thesis by (simp add: neuron_loop.simps spec_slice_def)
  next
    case True
    then have jc: "j < length cnts" using len by simp
    have sok: "section_ok frameSize (offs ! j) (cnts ! j)"
      using "1.prems"(1) True by (simp add: layout_ok_def list_all2_nthD)
    have sec: "section_loop voltages (offs ! j) (cnts ! j) 0 cell =
        Some (cell @ take (unat (cnts ! j)) (drop (unat (offs ! j)) voltages))"
      by (rule section_loop_ok[OF sok "1.prems"(2)])
    have rest: "neuron_loop voltages offs cnts (Suc j)
          (cell @ take (unat (cnts ! j)) (drop (unat (offs ! j)) voltages)) =
        Some ((cell @ take (unat (cnts ! j)) (drop (unat (offs ! j)) voltages)) @
              spec_slice voltages (drop (Suc j) offs) (drop (Suc j) cnts))"
      using "1.IH"[OF True jc sec "1.prems"(1,2)] True by simp
    have unfold: "spec_slice voltages (drop j offs) (drop j cnts) =
        take (unat (cnts ! j)) (drop (unat (offs ! j)) voltages) @
        spec_slice voltages (drop (Suc j) offs) (drop (Suc j) cnts)"
      using True jc by (simp add: Cons_nth_drop_Suc[symmetric] spec_slice_Cons)
    have "neuron_loop voltages offs cnts j cell =
          neuron_loop voltages offs cnts (Suc j)
            (cell @ take (unat (cnts ! j)) (drop (unat (offs ! j)) voltages))"
      using True jc sec by (subst neuron_loop.simps) simp
    then show ?thesis using rest unfold by simp
  qed
qed

lemma spec_slice_length:
  "list_all2 (section_ok frameSize) offs cnts \<Longrightarrow> length voltages = unat frameSize \<Longrightarrow>
   length (spec_slice voltages offs cnts) = sum_list (map unat cnts)"
proof (induction offs cnts rule: list_all2_induct)
  case Nil
  then show ?case by (simp add: spec_slice_def)
next
  case (Cons off offs cnt cnts)
  have "length (take (unat cnt) (drop (unat off) voltages)) = unat cnt"
    using Cons.hyps(1) Cons.prems by (auto simp: section_ok_def split: if_splits)
  then show ?case using Cons by (simp add: spec_slice_Cons)
qed

lemma frame_loop_eq:
  "index + length gs \<le> length offsets \<Longrightarrow> index + length gs \<le> length counts \<Longrightarrow>
   \<forall>i<length gs. layout_ok frameSize (offsets ! (index + i)) (counts ! (index + i)) \<Longrightarrow>
   length voltages = unat frameSize \<Longrightarrow>
   frame_loop gs offsets counts voltages t index =
     Some (map (\<lambda>i. WriteFrame (gs ! i)
                 (spec_slice voltages (offsets ! (index + i)) (counts ! (index + i))) t)
            [0..<length gs])"
proof (induction gs arbitrary: index)
  case Nil
  then show ?case by simp
next
  case (Cons gid gs)
  have l0: "layout_ok frameSize (offsets ! index) (counts ! index)"
    using Cons.prems(3) by (metis add.right_neutral length_greater_0_conv list.distinct(1))
  have nl: "neuron_loop voltages (offsets ! index) (counts ! index) 0 [] =
      Some (spec_slice voltages (offsets ! index) (counts ! index))"
    using neuron_loop_eq[OF l0 Cons.prems(4), of 0 "[]"] by simp
  have rest: "frame_loop gs offsets counts voltages t (Suc index) =
     Some (map (\<lambda>i. WriteFrame (gs ! i)
                 (spec_slice voltages (offsets ! (Suc index + i)) (counts ! (Suc index + i))) t)
            [0..<length gs])"
  proof (rule Cons.IH)
    show "Suc index + length gs \<le> length offsets" using Cons.prems(1) by simp
    show "Suc index + length gs \<le> length counts" using Cons.prems(2) by simp
    show "\<forall>i<length gs. layout_ok frameSize (offsets ! (Suc index + i)) (counts ! (Suc index + i))"
      using Cons.prems(3) by (metis Suc_less_eq add_Suc_shift length_Cons)
    show "length voltages = unat frameSize" by (rule Cons.prems(4))
  qed
  have upt: "[0..<Suc (length gs)] = 0 # map Suc [0..<length gs]"
    by (simp add: upt_conv_Cons map_Suc_upt del: upt_Suc)
  show ?case
    using Cons.prems(1,2) nl rest by (simp add: upt o_def del: upt_Suc)
qed


text \<open>
  Claim C8.  For a well-formed report and a frame of \<open>frameSize\<close> values, the loop of
  one processed frame calls \<^verbatim>\<open>writeFrame\<close> once per neuron, in GID order, with the slice
  that concatenates the sub-ranges \<open>frame[off .. off + cnt)\<close> of the neuron's sections in
  section order.  The length of each slice is the sum of the neuron's counts, and a
  section with the sentinel offset contributes no element.
\<close>

theorem slice_is_concatenation_of_sections:
  assumes "report_ok frameSize gids offsets counts"
    and "length voltages = unat frameSize"
  shows "frame_loop gids offsets counts voltages t 0 =
           Some (map (\<lambda>i. WriteFrame (gids ! i)
                        (spec_slice voltages (offsets ! i) (counts ! i)) t)
                   [0..<length gids])
         \<and> (\<forall>i<length gids.
               length (spec_slice voltages (offsets ! i) (counts ! i)) =
                 sum_list (map unat (counts ! i))
             \<and> (\<forall>j<length (offsets ! i). offsets ! i ! j = sentinel \<longrightarrow>
                   take (unat (counts ! i ! j)) (drop (unat (offsets ! i ! j)) voltages) = []))"
proof -
  have lo: "length offsets = length gids" and la: "list_all2 (layout_ok frameSize) offsets counts"
    using assms(1) by (simp_all add: report_ok_def)
  have lc: "length counts = length gids" using la lo by (simp add: list_all2_lengthD[symmetric])
  have each: "\<forall>i<length gids. layout_ok frameSize (offsets ! i) (counts ! i)"
    using la lo by (simp add: list_all2_nthD)
  have loop: "frame_loop gids offsets counts voltages t 0 =
           Some (map (\<lambda>i. WriteFrame (gids ! i)
                        (spec_slice voltages (offsets ! i) (counts ! i)) t)
                   [0..<length gids])"
    using frame_loop_eq[of 0 gids offsets counts frameSize voltages t] lo lc each assms(2)
    by simp
  have len: "length (spec_slice voltages (offsets ! i) (counts ! i)) =
      sum_list (map unat (counts ! i))" if "i < length gids" for i
    using each that spec_slice_length[OF _ assms(2)] by (simp add: layout_ok_def)
  have sen: "take (unat (counts ! i ! j)) (drop (unat (offsets ! i ! j)) voltages) = []"
    if "i < length gids" and "j < length (offsets ! i)" and "offsets ! i ! j = sentinel" for i j
  proof -
    have "section_ok frameSize (offsets ! i ! j) (counts ! i ! j)"
      using each that(1,2) by (simp add: layout_ok_def list_all2_nthD)
    then show ?thesis using that(3) by (simp add: section_ok_def)
  qed
  show ?thesis using loop len sen by blast
qed

theorem slice_is_concatenation_of_sections_witness:
  "report_ok 10 [1, 2, 3] [[0], [2, sentinel, 3], [6, 8]] [[2], [1, 0, 3], [2, 2]]
   \<and> frame_loop [1, 2, 3] [[0], [2, sentinel, 3], [6, 8]] [[2], [1, 0, 3], [2, 2]]
       [10, 11, 12, 13, 14, 15, 16, 17, 18, 19 :: nat] (0 :: nat) 0 =
     Some [WriteFrame 1 [10, 11] 0, WriteFrame 2 [12, 13, 14, 15] 0,
           WriteFrame 3 [16, 17, 18, 19] 0]"
proof -
  have ok: "report_ok 10 [1, 2, 3] [[0], [2, sentinel, 3], [6, 8]] [[2], [1, 0, 3], [2, 2]]"
    by (simp add: report_ok_def layout_ok_def section_ok_def sentinel_def)
  have len: "length [10, 11, 12, 13, 14, 15, 16, 17, 18, 19 :: nat] = unat (10 :: u64)"
    by simp
  have upt3: "[0..<3] = [0, 1, 2]" by (simp add: upt_rec)
  show ?thesis
    using slice_is_concatenation_of_sections[OF ok len, of "0 :: nat"] ok
    by (simp add: spec_slice_def sentinel_def upt3)
qed

text \<open>
  Claim C10.  Under the layout invariants, every index \<open>offsets[i][j] + k\<close> with
  \<open>k < counts[i][j]\<close> that the inner loop evaluates lies inside the loaded frame, no such
  iteration happens for a section with the sentinel offset, and the construction of the
  slice therefore never reads out of bounds.
\<close>

theorem slice_reads_in_bounds:
  assumes "layout_ok frameSize offs cnts"
    and "length voltages = unat frameSize"
  shows "(\<forall>j<length offs. \<forall>k<unat (cnts ! j).
            offs ! j \<noteq> sentinel \<and> voltage_index (offs ! j) k < length voltages)
         \<and> neuron_loop voltages offs cnts 0 [] \<noteq> None"
proof -
  have "offs ! j \<noteq> sentinel \<and> voltage_index (offs ! j) k < length voltages"
    if "j < length offs" and "k < unat (cnts ! j)" for j k
  proof -
    have sok: "section_ok frameSize (offs ! j) (cnts ! j)"
      using assms(1) that(1) by (simp add: layout_ok_def list_all2_nthD)
    have ns: "offs ! j \<noteq> sentinel" using sok that(2) by (auto simp: section_ok_def)
    then have le: "unat (offs ! j) + unat (cnts ! j) \<le> unat frameSize"
      using sok by (simp add: section_ok_def)
    have "unat frameSize < 2 ^ 64" using unsigned_less[of frameSize] by simp
    then have "voltage_index (offs ! j) k = unat (offs ! j) + k"
      using le that(2) by (intro voltage_index_no_wrap) simp
    then show ?thesis using ns le that(2) assms(2) by simp
  qed
  moreover have "neuron_loop voltages offs cnts 0 [] \<noteq> None"
    using neuron_loop_eq[OF assms, of 0 "[]"] by simp
  ultimately show ?thesis by blast
qed

theorem slice_reads_in_bounds_witness:
  "layout_ok 10 [2, sentinel, 3] [1, 0, 3]
   \<and> [2, sentinel, 3] ! 2 \<noteq> sentinel
   \<and> voltage_index ([2, sentinel, 3] ! 2) 2
       < length [10, 11, 12, 13, 14, 15, 16, 17, 18, 19 :: nat]
   \<and> neuron_loop [10, 11, 12, 13, 14, 15, 16, 17, 18, 19 :: nat] [2, sentinel, 3] [1, 0, 3] 0 []
       \<noteq> None"
proof -
  have ok: "layout_ok 10 [2, sentinel, 3] [1, 0, 3]"
    by (simp add: layout_ok_def section_ok_def sentinel_def)
  have len: "length [10, 11, 12, 13, 14, 15, 16, 17, 18, 19 :: nat] = unat (10 :: u64)"
    by simp
  have j: "2 < length [2, sentinel, 3]" by simp
  have k: "2 < unat ([1, 0, 3 :: u16] ! 2)" by simp
  show ?thesis
    using slice_reads_in_bounds[OF ok len] ok j k by blast
qed

section \<open>Ownership and the calls of a processed frame\<close>

lemma frame_loop_calls:
  "frame_loop gs offsets counts voltages t index = Some calls \<Longrightarrow>
     length calls = length gs
     \<and> (\<forall>i<length gs. \<exists>cell.
           neuron_loop voltages (offsets ! (index + i)) (counts ! (index + i)) 0 [] = Some cell
           \<and> calls ! i = WriteFrame (gs ! i) cell t)"
proof (induction gs arbitrary: index calls)
  case Nil
  then show ?case by simp
next
  case (Cons gid gs)
  have inb: "index < length offsets \<and> index < length counts"
    using Cons.prems by (simp split: if_splits)
  obtain cell where cell: "neuron_loop voltages (offsets ! index) (counts ! index) 0 [] = Some cell"
    using Cons.prems inb
    by (cases "neuron_loop voltages (offsets ! index) (counts ! index) 0 []") simp_all
  obtain rest where rest: "frame_loop gs offsets counts voltages t (Suc index) = Some rest"
    using Cons.prems inb cell
    by (cases "frame_loop gs offsets counts voltages t (Suc index)") simp_all
  have calls: "calls = WriteFrame gid cell t # rest"
    using Cons.prems inb cell rest by simp
  have ih: "length rest = length gs
     \<and> (\<forall>i<length gs. \<exists>c.
           neuron_loop voltages (offsets ! (Suc index + i)) (counts ! (Suc index + i)) 0 [] = Some c
           \<and> rest ! i = WriteFrame (gs ! i) c t)"
    by (rule Cons.IH[OF rest])
  have each: "\<exists>c. neuron_loop voltages (offsets ! (index + i)) (counts ! (index + i)) 0 [] = Some c
           \<and> calls ! i = WriteFrame ((gid # gs) ! i) c t" if "i < length (gid # gs)" for i
  proof (cases i)
    case 0
    then show ?thesis using cell calls by simp
  next
    case (Suc k)
    then have "k < length gs" using that by simp
    then show ?thesis using ih Suc calls by simp
  qed
  show ?case using ih calls each by simp
qed

lemma layout_loop_calls:
  "layout_loop s e gs counts index = Some (layout :: ('v, 't) writer_call list) \<Longrightarrow>
     length layout = length gs
     \<and> (\<forall>i<length gs. layout ! i =
           (if int (index + i) < s \<or> int (index + i) \<ge> e then AddGID (gs ! i)
            else WriteCompartments (gs ! i) (counts ! (index + i))))"
proof (induction gs arbitrary: index layout)
  case Nil
  then show ?case by simp
next
  case (Cons gid gs)
  obtain rest :: "('v, 't) writer_call list"
    where rest: "layout_loop s e gs counts (Suc index) = Some rest"
    using Cons.prems
    by (cases "layout_loop s e gs counts (Suc index) :: ('v, 't) writer_call list option")
       (simp_all split: if_splits)
  have layout: "layout = (if int index < s \<or> int index \<ge> e then AddGID gid
                  else WriteCompartments gid (counts ! index)) # rest"
  proof (cases "int index < s \<or> int index \<ge> e")
    case True
    then show ?thesis using Cons.prems rest by auto
  next
    case False
    then show ?thesis using Cons.prems rest by (simp split: if_splits)
  qed
  have ih: "length rest = length gs
     \<and> (\<forall>i<length gs. rest ! i =
           (if int (Suc index + i) < s \<or> int (Suc index + i) \<ge> e then AddGID (gs ! i)
            else WriteCompartments (gs ! i) (counts ! (Suc index + i))))"
    by (rule Cons.IH[OF rest])
  have each: "layout ! i =
      (if int (index + i) < s \<or> int (index + i) \<ge> e then AddGID ((gid # gs) ! i)
       else WriteCompartments ((gid # gs) ! i) (counts ! (index + i)))"
    if "i < length (gid # gs)" for i
  proof (cases i)
    case 0
    then show ?thesis using layout by simp
  next
    case (Suc k)
    then have "k < length gs" using that by simp
    then show ?thesis using ih Suc layout by simp
  qed
  show ?case using ih layout each by simp
qed

text \<open>
  Claim C1, as the code has it.  The loop of a processed frame has no test of ownership.
  Whenever a rank runs it for a frame at time \<open>t\<close>, it calls \<^verbatim>\<open>writeFrame\<close> once for every
  neuron index \<open>i\<close>, in GID order, with the GID at \<open>i\<close>, the slice that the section loops
  build for \<open>i\<close>, and \<open>t\<close>.  The ownership range of the rank decides one thing only, in
  the layout phase: \<^verbatim>\<open>writeCompartments( gid, counts[i] )\<close> for an owned index and
  \<^verbatim>\<open>addGID( gid )\<close> for any other.  (\<open>None\<close> is undefined behaviour: a read out of range, or
  a bound that does not fit \<^verbatim>\<open>size_t\<close>.)
\<close>

theorem frame_written_for_every_gid:
  assumes frame: "frame_loop gids offsets counts voltages t 0 = Some calls"
    and lay: "layout_phase rank nRanks gids counts = Some (layout :: ('w, 'u) writer_call list)"
  shows "length calls = length gids \<and> length layout = length gids
     \<and> (\<forall>i<length gids.
           (\<exists>cell. neuron_loop voltages (offsets ! i) (counts ! i) 0 [] = Some cell
               \<and> calls ! i = WriteFrame (gids ! i) cell t)
           \<and> layout ! i =
               (if owns (int (length gids)) nRanks rank i
                then WriteCompartments (gids ! i) (counts ! i) else AddGID (gids ! i)))"
proof -
  obtain s where s: "startGID (int (length gids)) nRanks rank = Some s"
    using lay by (cases "startGID (int (length gids)) nRanks rank") (simp_all add: layout_phase_def)
  obtain e where e: "endGID (int (length gids)) nRanks rank = Some e"
    using lay s by (cases "endGID (int (length gids)) nRanks rank") (simp_all add: layout_phase_def)
  have loop: "layout_loop s e gids counts 0 = Some layout"
    using lay s e by (simp add: layout_phase_def)
  have own: "owns (int (length gids)) nRanks rank i = (\<not> (int i < s \<or> int i \<ge> e))" for i
    by (simp add: owns_def s e)
  from frame_loop_calls[OF frame] have c: "length calls = length gids"
    and ci: "\<forall>i<length gids. \<exists>cell.
           neuron_loop voltages (offsets ! i) (counts ! i) 0 [] = Some cell
           \<and> calls ! i = WriteFrame (gids ! i) cell t"
    by simp_all
  from layout_loop_calls[OF loop] have l: "length layout = length gids"
    and li: "\<forall>i<length gids. layout ! i =
           (if int i < s \<or> int i \<ge> e then AddGID (gids ! i)
            else WriteCompartments (gids ! i) (counts ! i))"
    by simp_all
  show ?thesis using c l ci li own by simp
qed

theorem frame_written_for_every_gid_witness:
  "frame_loop [1, 2] [[0], [1]] [[1], [1]] [7, 8 :: nat] (2 :: rat) 0
     = Some [WriteFrame 1 [7] 2, WriteFrame 2 [8] 2]
   \<and> (layout_phase 0 2 [1, 2] [[1], [1]] :: (nat, rat) writer_call list option)
     = Some [WriteCompartments 1 [1], AddGID 2]
   \<and> \<not> owns (int (length [1 :: u32, 2])) 2 0 1
   \<and> (\<exists>cell. neuron_loop [7, 8 :: nat] ([[0], [1]] ! 1) ([[1], [1]] ! 1) 0 [] = Some cell
         \<and> [WriteFrame 1 [7] 2, WriteFrame 2 [8] (2 :: rat)] ! 1 = WriteFrame ([1, 2] ! 1) cell 2)
   \<and> [WriteCompartments 1 [1], AddGID 2 :: (nat, rat) writer_call] ! 1 = AddGID ([1, 2] ! 1)"
proof -
  have frame: "frame_loop [1, 2] [[0], [1]] [[1], [1]] [7, 8 :: nat] (2 :: rat) 0
     = Some [WriteFrame 1 [7] 2, WriteFrame 2 [8] 2]"
    by code_simp
  have lay: "(layout_phase 0 2 [1, 2] [[1], [1]] :: (nat, rat) writer_call list option)
     = Some [WriteCompartments 1 [1], AddGID 2]"
    by code_simp
  have own: "\<not> owns (int (length [1 :: u32, 2])) 2 0 1" by code_simp
  have i: "(1 :: nat) < length [1 :: u32, 2]" by simp
  have inst: "(\<exists>cell. neuron_loop [7, 8 :: nat] ([[0], [1]] ! 1) ([[1], [1]] ! 1) 0 [] = Some cell
         \<and> [WriteFrame 1 [7] 2, WriteFrame 2 [8] (2 :: rat)] ! 1 = WriteFrame ([1, 2] ! 1) cell 2)
     \<and> [WriteCompartments 1 [1], AddGID 2 :: (nat, rat) writer_call] ! 1 =
         (if owns (int (length [1 :: u32, 2])) 2 0 1
          then WriteCompartments ([1, 2] ! 1) ([[1], [1]] ! 1) else AddGID ([1, 2] ! 1))"
    using frame_written_for_every_gid[OF frame lay] i by blast
  have "[WriteCompartments 1 [1], AddGID 2 :: (nat, rat) writer_call] ! 1 = AddGID ([1, 2] ! 1)"
    using inst own by (simp only: if_False)
  then show ?thesis using frame lay own inst by blast
qed

text \<open>
  Claim C1 as it is stated fails.  Two ranks, GIDs 1 and 2, three frames: \<open>Q = 2\<close> and
  \<open>S = 2\<close>, so rank 0 queues frames 0 and 1 for rank 1 and enters the loop at frame 2.
  No completion is pending, so it processes frame 2 itself.  Rank 0 owns index 0 only
  (its layout phase declares GID 2 with \<^verbatim>\<open>addGID\<close>), and it calls \<^verbatim>\<open>writeFrame\<close> for GID 2
  all the same.
\<close>

theorem unowned_gid_written_counterexample:
  "convert (\<lambda>i. None) (\<lambda>s. s) []
     \<lparr>getStartTime = 0, getEndTime = 3, getTimestep = 1, getGIDs = [1, 2],
      getCompartmentCounts = [[1], [1]], getOffsets = [[0], [1]], getFrameSize = 2,
      loadFrame = (\<lambda>t. if t = 0 \<or> t = 1 \<or> t = 2 then Some [7, 8 :: nat] else None)\<rparr>
     0 2 None
   = Some ([Call (WriteHeader 0 3 1), Call (WriteCompartments 1 [1]), Call (AddGID 2),
            Isend 1 TAG_FRAME 0, Isend 1 TAG_FRAME 1,
            Process 2, Call (WriteFrame 1 [7] 2), Call (WriteFrame 2 [8] 2),
            Isend 1 TAG_FRAME (- 1), Call Flush,
            WaitRequest (- 1), WaitRequest 0, WaitRequest 1, Barrier], Exit EXIT_SUCCESS)
   \<and> \<not> owns 2 2 0 1"
  by code_simp

section \<open>The partition of the GIDs\<close>

text \<open>
  Claim C2 at 13 GIDs and 11 ranks.  \<open>13 / 11\<close> rounds to a float slightly below the
  quotient, and 11 times that float rounds to the float just below 13.  The range of the
  last rank, rank 10, is therefore \<open>[11, 12)\<close> where integer floor division gives
  \<open>[11, 13)\<close>: the layout phase of rank 10 declares the last GID with \<^verbatim>\<open>addGID\<close>.
\<close>

theorem last_rank_range_13_gids_11_ranks:
  "startGID 13 11 10 = Some 11 \<and> endGID 13 11 10 = Some 12
   \<and> (10 * 13 div 11, (10 + 1) * 13 div 11) = (11 :: int, 13 :: int)
   \<and> (layout_phase 10 11 [1, 2, 3, 4, 5, 6, 7, 8, 9, 10, 11, 12, 13] (replicate 13 [1])
        :: (u32, rat) writer_call list option)
      = Some [AddGID 1, AddGID 2, AddGID 3, AddGID 4, AddGID 5, AddGID 6, AddGID 7, AddGID 8,
              AddGID 9, AddGID 10, AddGID 11, WriteCompartments 12 [1], AddGID 13]"
  by code_simp

text \<open>
  Claim C3 at the same input: index 12, the last of the 13 GIDs, is in the range of none
  of the 11 ranks.  Every rank declares it and no rank writes its compartment counts.
\<close>

theorem gid_without_owner_13_gids_11_ranks:
  "list_all (\<lambda>rank. \<not> owns 13 11 rank 12) [0..10]"
  by code_simp

section \<open>The dispatcher\<close>

text \<open>
  Claim C4 at one iteration of rank 0 of 2: the counter is 2, \<^verbatim>\<open>DONE(0)\<close> from rank 1 is
  pending, the handles of frames 0 and 1 are outstanding, and \<^verbatim>\<open>MPI_Wait\<close> stores the
  calling rank in the \<^verbatim>\<open>MPI_SOURCE\<close> field of the status it is given (the field is
  undefined for a send request).  The handle of frame 0 is waited for and erased, and
  \<^verbatim>\<open>FRAME(2)\<close> is sent to rank 0, not to rank 1 that reported the completion.
\<close>

theorem dispatch_follows_wait_status:
  "coordinator_loop (\<lambda>i. if i = 2 then Some (0, 1) else None) (\<lambda>s. s\<lparr>MPI_SOURCE := 0\<rparr>)
     (proc :: int \<Rightarrow> (u32, rat) event list option) 2 3 2 {0, 1}
   = Some ([Recv 1 TAG_FRAME_DONE 0, WaitRequest 0, Isend 0 TAG_FRAME 2], {1, 2})"
  by code_simp

text \<open>
  Claim C5 at two ranks and two frames.  \<open>Q = 2\<close> and \<open>S = 2 \<le> nFrames\<close>, so the run goes
  on; rank 0 sends frames 0 and 1 to rank 1, and then the loop from \<open>S\<close> to \<open>nFrames\<close> has
  no iteration on either rank: rank 1 never receives what was queued for it, and no frame
  is processed, whatever messages arrive.
\<close>

theorem two_ranks_two_frames_none_processed:
  "dispatch probe mpi_wait inbox0 (proc :: int \<Rightarrow> (u32, rat) event list option) 0 2 2
     = Some ([Isend 1 TAG_FRAME 0, Isend 1 TAG_FRAME 1, Isend 1 TAG_FRAME (- 1), Call Flush,
              WaitRequest (- 1), WaitRequest 0, WaitRequest 1, Barrier], Exit EXIT_SUCCESS)
   \<and> dispatch probe mpi_wait [0, 1, - 1] proc 1 2 2
     = Some ([Call Flush, WaitClient, Barrier], Exit EXIT_SUCCESS)
   \<and> framesDone [Isend 1 TAG_FRAME 0, Isend 1 TAG_FRAME 1, Isend 1 TAG_FRAME (- 1),
        Call Flush, WaitRequest (- 1), WaitRequest 0, WaitRequest 1, Barrier
        :: (u32, rat) event] = []
   \<and> framesDone [Call Flush, WaitClient, Barrier :: (u32, rat) event] = []"
  by code_simp

section \<open>The frame limit\<close>

text \<open>The float nearest to 0.3 and the float nearest to 0.1.\<close>

lemma step_three_tenths: "fl32 (3 / 10) = Some (5033165 / 16777216)"
  by code_simp

lemma step_one_tenth: "fl32 (1 / 10) = Some (13421773 / 134217728)"
  by code_simp

text \<open>
  Claim C6 at a report from 0 to 30 with a timestep of 0.3 (as a float) and
  \<^verbatim>\<open>--maxFrames 15\<close>.  \<open>15 * step\<close> rounds to 4.5, and \<open>4.5 / step\<close> rounds to the float just
  below 15: 14 frames are converted, where the report has 99 without the option and the
  minimum of the two counts is 15.
\<close>

theorem maxFrames_15_converts_14:
  "clamped_end 0 30 (5033165 / 16777216) 15 = Some (9 / 2)
   \<and> converted_frames 0 30 (5033165 / 16777216) (Some 15) = Some 14
   \<and> converted_frames 0 30 (5033165 / 16777216) None = Some 99"
  by code_simp

text \<open>The count can also exceed the limit: from 10000000 with a timestep of 0.1 and
  \<^verbatim>\<open>--maxFrames 6\<close>, the clamped end rounds to 10000001 and 10 frames are converted.\<close>

lemma maxFrames_6_converts_10:
  "converted_frames 10000000 10000010 (13421773 / 134217728) (Some 6) = Some 10"
  by code_simp

section \<open>Too many workers\<close>

lemma to_int32_id: "- (2 ^ 31) \<le> x \<Longrightarrow> x < 2 ^ 31 \<Longrightarrow> to_int32 x = x"
  by (simp add: to_int32_def)










section \<open>The verification pass\<close>







text \<open>
  In the other direction, two frames that hold the same NaN, bit for bit, fail it.
\<close>

lemma identical_nan_fails:
  "verify_loop (\<lambda>t. Some [0x7FC00000]) (\<lambda>t. Some [0x7FC00000]) 1 1 1 2 0
     = Some (Exited EXIT_FAILURE)"
  by code_simp

section \<open>Further facts about the dispatcher and the float model\<close>

text \<open>
  A single rank runs every frame itself, in order, and sends no message.
\<close>

lemma coordinator_alone:
  "0 \<le> i \<Longrightarrow> nFrames \<le> 2 ^ 31 \<Longrightarrow> (\<forall>f. i \<le> f \<and> f < nFrames \<longrightarrow> proc f \<noteq> None) \<Longrightarrow>
   coordinator_loop probe mpi_wait proc 1 nFrames i rq =
     Some (concat (map (\<lambda>f. Process f # the (proc f)) [i..nFrames - 1]), rq)"
proof (induction "nat (nFrames - i)" arbitrary: i)
  case 0
  then have "\<not> i < nFrames" by simp
  then show ?case by (subst coordinator_loop.simps) simp
next
  case (Suc k)
  then have lt: "i < nFrames" by simp
  have conv: "to_int32 i = i" using Suc.prems lt by (intro to_int32_id) simp_all
  obtain calls where calls: "proc i = Some calls" using Suc.prems(3) lt by auto
  have rest: "coordinator_loop probe mpi_wait proc 1 nFrames (i + 1) rq =
     Some (concat (map (\<lambda>f. Process f # the (proc f)) [i + 1..nFrames - 1]), rq)"
  proof (rule Suc.hyps(1))
    show "k = nat (nFrames - (i + 1))" using Suc.hyps(2) by simp
    show "0 \<le> i + 1" using Suc.prems(1) by simp
    show "nFrames \<le> 2 ^ 31" by (rule Suc.prems(2))
    show "\<forall>f. i + 1 \<le> f \<and> f < nFrames \<longrightarrow> proc f \<noteq> None" using Suc.prems(3) by simp
  qed
  have upto: "[i..nFrames - 1] = i # [i + 1..nFrames - 1]"
    using lt by (simp add: upto_rec1)
  show ?case
    using lt conv calls rest Suc.prems(1)
    by (subst coordinator_loop.simps) (simp add: upto)
qed

lemma single_rank_runs_all_frames:
  assumes "0 \<le> nFrames" and "nFrames < 2 ^ 31"
    and "\<forall>f. 0 \<le> f \<and> f < nFrames \<longrightarrow> proc f \<noteq> None"
  shows "dispatch probe mpi_wait inbox proc 0 1 nFrames =
     Some (concat (map (\<lambda>f. Process f # the (proc f)) [0..nFrames - 1])
             @ [Call Flush, Barrier], Exit EXIT_SUCCESS)"
proof -
  have s: "startFrame 1 nFrames = Some 0" by (simp add: startFrame_def)
  have pre: "prequeue_frames 1 (preQueue nFrames) = []" by (simp add: prequeue_frames_def)
  have loop: "coordinator_loop probe mpi_wait proc 1 nFrames 0 {} =
     Some (concat (map (\<lambda>f. Process f # the (proc f)) [0..nFrames - 1]), {})"
    using assms by (intro coordinator_alone) simp_all
  show ?thesis
    using assms(1) s pre loop by (simp add: dispatch_def proceed_def)
qed

text \<open>
  With several ranks, an iteration of rank 0 that finds a completion sends the counter
  to the \<^verbatim>\<open>MPI_SOURCE\<close> that \<^verbatim>\<open>MPI_Wait\<close> left in the status.
\<close>

lemma dispatch_target:
  "i < nFrames \<Longrightarrow> 1 < nRanks \<Longrightarrow> probe i = Some (frame, source) \<Longrightarrow>
   coordinator_loop probe mpi_wait proc nRanks nFrames i requests = Some (evs, rq) \<Longrightarrow>
   take 3 evs = [Recv source TAG_FRAME_DONE frame, WaitRequest frame,
                 Isend (MPI_SOURCE (mpi_wait \<lparr>MPI_SOURCE = source\<rparr>)) TAG_FRAME (to_int32 i)]"
  by (subst (asm) coordinator_loop.simps) (auto simp: Let_def)

text \<open>
  A rank other than 0 processes at most \<open>nFrames - startFrame\<close> frames, however many
  were sent to it, because it runs the loop from \<^verbatim>\<open>startFrame\<close> to \<^verbatim>\<open>nFrames\<close> too.
\<close>

lemma framesDone_append: "framesDone (xs @ ys) = framesDone xs @ framesDone ys"
  by (induction xs rule: framesDone.induct) simp_all

lemma framesDone_calls: "framesDone (map Call calls) = []"
  by (induction calls) simp_all

lemma process_frame_quiet:
  assumes "process_frame inp frame = Some evs"
  shows "framesDone evs = []"
proof -
  obtain t where t: "frame_time (getStartTime inp) (getTimestep inp) frame = Some t"
    using assms
    by (cases "frame_time (getStartTime inp) (getTimestep inp) frame")
       (simp_all add: process_frame_def)
  obtain voltages where v: "loadFrame inp t = Some voltages"
    using assms t by (cases "loadFrame inp t") (simp_all add: process_frame_def)
  obtain calls where "evs = map Call calls"
    using assms t v by (auto simp: process_frame_def)
  then show ?thesis by (simp add: framesDone_calls)
qed

lemma worker_handles_at_most:
  assumes quiet: "\<forall>f calls. proc f = Some calls \<longrightarrow> framesDone calls = []"
  shows "worker_loop proc first nFrames i inbox = Some (evs, h) \<Longrightarrow>
         length (framesDone evs) \<le> nat (nFrames - i)"
proof (induction "nat (nFrames - i)" arbitrary: i inbox evs h)
  case 0
  then have "\<not> i < nFrames" by simp
  with "0.prems" have "evs = []" by (subst (asm) worker_loop.simps) simp
  then show ?case by simp
next
  case (Suc k)
  then have lt: "i < nFrames" by simp
  let ?wait = "if i \<noteq> first then [WaitClient] else []"
  have wait: "framesDone ?wait = []" by simp
  show ?case
  proof (cases inbox)
    case Nil
    with Suc.prems lt have "evs = ?wait" by (subst (asm) worker_loop.simps) (simp add: Let_def)
    then show ?thesis by simp
  next
    case (Cons frame rest)
    show ?thesis
    proof (cases "frame < 0")
      case True
      with Suc.prems lt Cons have "evs = ?wait @ [Recv 0 TAG_FRAME frame]"
        by (subst (asm) worker_loop.simps) (simp add: Let_def)
      then show ?thesis by (simp add: framesDone_append)
    next
      case False
      from Suc.prems lt Cons False obtain calls evs' where
        calls: "proc frame = Some calls" and
        rec: "worker_loop proc first nFrames (i + 1) rest = Some (evs', h)" and
        evs: "evs = ?wait @ Recv 0 TAG_FRAME frame # Process frame # calls
                 @ Isend 0 TAG_FRAME_DONE frame # evs'"
        by (subst (asm) worker_loop.simps)
           (auto simp: Let_def split: option.splits if_splits)
      have "k = nat (nFrames - (i + 1))" using Suc.hyps(2) by simp
      from Suc.hyps(1)[OF this rec] have "length (framesDone evs') \<le> nat (nFrames - (i + 1))" .
      moreover have "framesDone evs = frame # framesDone evs'"
        using evs calls quiet by (simp add: framesDone_append)
      ultimately show ?thesis using lt by simp
    qed
  qed
qed

text \<open>
  The scenarios of the specification on which the float arithmetic is exact: a report
  from 0 to 10 with step 1, with and without \<^verbatim>\<open>--maxFrames 4\<close>; three GIDs on two ranks;
  four frames on 16 ranks.
\<close>

lemma spec_scenarios:
  "clamped_end 0 10 1 4 = Some 4 \<and> converted_frames 0 10 1 (Some 4) = Some 4
   \<and> converted_frames 0 10 1 None = Some 10
   \<and> startGID 3 2 0 = Some 0 \<and> endGID 3 2 0 = Some 1
   \<and> startGID 3 2 1 = Some 1 \<and> endGID 3 2 1 = Some 3
   \<and> too_many_workers 16 4 = Some True"
  by code_simp

text \<open>
  Without \<^verbatim>\<open>--maxFrames\<close> and with a step so large that \<^verbatim>\<open>maxFrames * step\<close> overflows,
  the end is left as it is and the frames are counted from it.
\<close>

lemma large_step_without_limit:
  "clamped_end 0 (2 ^ 71) (2 ^ 70) size_max = Some (2 ^ 71)
   \<and> frame_count 0 (2 ^ 71) (2 ^ 70) = Some 2"
  by code_simp

text \<open>
  Values of the rounding function: the floats nearest to 1/3 and to -0.1, ties going to
  the even significand at \<open>2^24 + 1\<close> and \<open>2^24 + 3\<close>, and the two operations behind the
  bound \<^verbatim>\<open>endGID\<close> of the last of 11 ranks for 13 GIDs.
\<close>

lemma float_model_samples:
  "fl32 1 = Some 1 \<and> fl32 (1 / 3) = Some (11184811 / 33554432)
   \<and> fl32 16777217 = Some 16777216 \<and> fl32 16777219 = Some 16777220
   \<and> fl32 (- 1 / 10) = Some (- 13421773 / 134217728)
   \<and> fdiv 13 11 = Some (9913809 / 8388608)
   \<and> fmul 11 (9913809 / 8388608) = Some (13631487 / 1048576)"
  by code_simp

end
